theory Spec2Isabelle
  imports Main
begin

section \<open>The host document\<close>

text \<open>
  A node of the design document as \<^verbatim>\<open>code.js\<close> reads it: the type tag, the display
  name, the identifier, and the ordered children. The test \<^verbatim>\<open>'children' in node\<close> is
  the case distinction on \<open>nchildren\<close>: \<open>None\<close> is a node without that property.
\<close>

datatype node =
  Node (ntype: string) (nname: string) (nid: string) (nchildren: "node list option")

text \<open>
  The value of the \<^verbatim>\<open>remote\<close> property of a main component. The source compares it
  with \<^verbatim>\<open>=== true\<close>, so every value other than the boolean \<open>True\<close> is kept apart.
\<close>

datatype jsval = JUndefined | JNull | JBool bool | JNum int | JStr string

datatype mainComponent = MainComponent (remote: jsval)

text \<open>
  How the promise of \<^verbatim>\<open>getMainComponentAsync\<close> settles: rejected (\<open>Throws\<close>) or
  fulfilled with a component or with \<^verbatim>\<open>null\<close>. The host is the table of these
  outcomes, fixed during one scan.
\<close>

datatype 'a outcome = Throws | Returns 'a

type_synonym host = "node \<Rightarrow> mainComponent option outcome"

section \<open>The instance locator\<close>

text \<open>
  The ancestor-name paths are JavaScript arrays: they are allocated, copied with the
  spread operator, stored by reference in a record and extended with \<^verbatim>\<open>push\<close>. The
  store holds every such array, an address is its index. Allocation appends a cell,
  \<^verbatim>\<open>push\<close> updates a cell in place.
\<close>

type_synonym store = "string list list"

record instanceData =
  node :: node
  level :: int
  parentPath :: nat
  parentName :: "string option"

text \<open>
  \<^verbatim>\<open>findAllComponentInstances(node, level, parentPath)\<close>, lines 7 to 29. The first
  function is the body for one node, the second is the \<^verbatim>\<open>for\<close> loop over the
  children, which appends each child's records to \<^verbatim>\<open>instances\<close>.
  \<^item> \<open>currentPath\<close> is the address of the fresh copy \<^verbatim>\<open>[...parentPath]\<close>;
  \<^item> the record stores that address in its \<open>parentPath\<close> field and reads
    \<open>parentName\<close> from the copy at that moment;
  \<^item> \<^verbatim>\<open>currentPath.push(node.name)\<close> then updates the very same cell.
  The argument \<open>pp\<close> is the address of an array that exists: every call passes an
  address allocated before.
\<close>

fun findAllComponentInstances ::
    "node \<Rightarrow> int \<Rightarrow> nat \<Rightarrow> store \<Rightarrow> instanceData list \<times> store"
and findAll_children ::
    "node list \<Rightarrow> int \<Rightarrow> nat \<Rightarrow> instanceData list \<Rightarrow> store \<Rightarrow> instanceData list \<times> store"
where
  "findAllComponentInstances (Node ty nm i ch) lvl pp h =
    (let currentPath = length h;
         h1 = h @ [h ! pp];
         (instances, h2) =
           (if ty = ''INSTANCE''
            then ([\<lparr>node = Node ty nm i ch, level = lvl, parentPath = currentPath,
                     parentName = (if length (h1 ! currentPath) > 0
                                   then Some (h1 ! currentPath ! (length (h1 ! currentPath) - 1))
                                   else None)\<rparr>],
                  h1[currentPath := (h1 ! currentPath) @ [nm]])
            else ([], h1))
     in case ch of
          None \<Rightarrow> (instances, h2)
        | Some cs \<Rightarrow>
            findAll_children cs (lvl + (if ty = ''INSTANCE'' then 1 else 0))
              currentPath instances h2)"
| "findAll_children [] lvl cp instances h = (instances, h)"
| "findAll_children (c # cs) lvl cp instances h =
    (let (r, h') = findAllComponentInstances c lvl cp h
     in findAll_children cs lvl cp (instances @ r) h')"

text \<open>
  The call \<^verbatim>\<open>findAllComponentInstances(frame)\<close> of line 54: the default arguments are
  level 0 and a newly allocated empty array.
\<close>

definition locate :: "node \<Rightarrow> store \<Rightarrow> instanceData list \<times> store" where
  "locate root h = findAllComponentInstances root 0 (length h) (h @ [[]])"

section \<open>The link auditor\<close>

text \<open>\<^verbatim>\<open>isComponentLinked\<close>, lines 32 to 49: the \<^verbatim>\<open>catch\<close> branch is the case \<open>Throws\<close>.\<close>

definition isComponentLinked :: "host \<Rightarrow> node \<Rightarrow> bool" where
  "isComponentLinked getMainComponentAsync inst =
     (case getMainComponentAsync inst of
        Throws \<Rightarrow> False
      | Returns None \<Rightarrow> False
      | Returns (Some mainComp) \<Rightarrow> remote mainComp = JBool True)"

record issue =
  issue_name :: string
  issue_id :: string
  issue_type :: string
  issue_level :: int
  issue_parentPath :: nat
  issue_parentName :: "string option"
  issue_parentId :: "string option"

text \<open>
  Lines 64 to 74: the search for the parent's identifier. The path is read through the
  store as it is when the audit runs; \<^verbatim>\<open>Array.prototype.find\<close> returns the first
  match in the list of all located records.
\<close>

definition findParentId :: "store \<Rightarrow> instanceData list \<Rightarrow> instanceData \<Rightarrow> string option" where
  "findParentId h instances instData =
     (let path = h ! parentPath instData in
      if length path > 0
      then (case find (\<lambda>inst. nname (node inst) = path ! (length path - 1)
                              \<and> level inst = level instData - 1) instances of
              Some parentInstance \<Rightarrow> Some (nid (node parentInstance))
            | None \<Rightarrow> None)
      else None)"

text \<open>
  The loop of lines 59 to 89 over the located records, with the two accumulators of the
  source: the \<open>issues\<close> array and the \<open>parentIdMap\<close>, which is written and never read.
\<close>

fun scan_loop ::
    "host \<Rightarrow> store \<Rightarrow> instanceData list \<Rightarrow> instanceData list
       \<Rightarrow> issue list \<times> (string \<rightharpoonup> string) \<Rightarrow> issue list \<times> (string \<rightharpoonup> string)"
where
  "scan_loop env h instances [] acc = acc"
| "scan_loop env h instances (instData # rest) (issues, parentIdMap) =
    (let inst = node instData;
         isLinked = isComponentLinked env inst
     in if \<not> isLinked
        then scan_loop env h instances rest
               (issues @ [\<lparr>issue_name = nname inst, issue_id = nid inst,
                            issue_type = ''NOT_LINKED'', issue_level = level instData,
                            issue_parentPath = parentPath instData,
                            issue_parentName = parentName instData,
                            issue_parentId = findParentId h instances instData\<rparr>],
                parentIdMap(nid inst \<mapsto> nname inst))
        else scan_loop env h instances rest (issues, parentIdMap))"

record scanResult =
  totalComponents :: nat
  totalIssues :: nat
  issues :: "issue list"
  frameName :: string

text \<open>\<^verbatim>\<open>scanFrameForComponents\<close>, lines 52 to 97.\<close>

definition scanFrameForComponents :: "host \<Rightarrow> node \<Rightarrow> store \<Rightarrow> scanResult \<times> store" where
  "scanFrameForComponents env frame h =
     (let (instances, h') = locate frame h;
          (issues, parentIdMap) = scan_loop env h' instances instances ([], Map.empty)
      in (\<lparr>totalComponents = length instances, totalIssues = length issues,
            issues = issues, frameName = nname frame\<rparr>, h'))"

section \<open>What a result contains\<close>

text \<open>
  \<^verbatim>\<open>postMessage\<close> sends a copy of the result, in which every path is the array's
  content at that moment. The content of an issue and of a result is that copy: the
  fields in the order of the source, with the path read through the store.
\<close>

type_synonym issueContent =
  "string \<times> string \<times> string \<times> int \<times> string list \<times> string option \<times> string option"

type_synonym resultContent = "nat \<times> nat \<times> issueContent list \<times> string"

definition issue_content :: "store \<Rightarrow> issue \<Rightarrow> issueContent" where
  "issue_content h iss =
     (issue_name iss, issue_id iss, issue_type iss, issue_level iss,
      h ! issue_parentPath iss, issue_parentName iss, issue_parentId iss)"

definition result_content :: "store \<Rightarrow> scanResult \<Rightarrow> resultContent" where
  "result_content h res =
     (totalComponents res, totalIssues res, map (issue_content h) (issues res), frameName res)"

section \<open>The scan request\<close>

text \<open>
  The \<^verbatim>\<open>scan-frame\<close> branch of \<^verbatim>\<open>figma.ui.onmessage\<close>, lines 106 to 137; the handlers
  installed for the editor types figjam, slides and buzz repeat it word for word. The
  selection is the list \<^verbatim>\<open>figma.currentPage.selection\<close>; the value is the message
  posted to the user interface and the store after the handler.
\<close>

datatype uiMessage = ScanError string | ScanResultMsg resultContent

definition onmessage_scan_frame :: "host \<Rightarrow> node list \<Rightarrow> store \<Rightarrow> uiMessage \<times> store" where
  "onmessage_scan_frame env selection h =
     (if length selection = 0
      then (ScanError ''Por favor, selecciona un frame para escanear.'', h)
      else
        (let selectedNode = selection ! 0 in
         if ntype selectedNode \<noteq> ''FRAME'' \<and> ntype selectedNode \<noteq> ''COMPONENT''
            \<and> ntype selectedNode \<noteq> ''COMPONENT_SET''
         then (ScanError ''Por favor, selecciona un Frame, Component o Component Set.'', h)
         else (let (scanResult, h') = scanFrameForComponents env selectedNode h
               in (ScanResultMsg (result_content h' scanResult), h'))))"

section \<open>Reference notions on trees\<close>

text \<open>
  Depth-first pre-order: a node, then the pre-orders of its children in their order.
  \<open>positions\<close> is the same walk that also keeps, for each node met, the list of its
  strict ancestors from the root down to its parent.
\<close>

fun preorder :: "node \<Rightarrow> node list" where
  "preorder (Node ty nm i ch) =
     Node ty nm i ch # (case ch of None \<Rightarrow> [] | Some cs \<Rightarrow> concat (map preorder cs))"

fun positions :: "node list \<Rightarrow> node \<Rightarrow> (node list \<times> node) list" where
  "positions anc (Node ty nm i ch) =
     (anc, Node ty nm i ch) #
     (case ch of None \<Rightarrow> []
      | Some cs \<Rightarrow> concat (map (positions (anc @ [Node ty nm i ch])) cs))"

definition isInstance :: "node \<Rightarrow> bool" where
  "isInstance n = (ntype n = ''INSTANCE'')"

definition instanceAncestors :: "node list \<Rightarrow> node list" where
  "instanceAncestors anc = filter isInstance anc"

definition lastName :: "string list \<Rightarrow> string option" where
  "lastName xs = (if xs = [] then None else Some (last xs))"

definition instancePositions :: "node \<Rightarrow> (node list \<times> node) list" where
  "instancePositions root = filter (\<lambda>p. isInstance (snd p)) (positions [] root)"

text \<open>The number of INSTANCE nodes among the strict ancestors of a position.\<close>

definition instanceDepth :: "node list \<times> node \<Rightarrow> int" where
  "instanceDepth p = int (length (instanceAncestors (fst p)))"

text \<open>The display name of the innermost INSTANCE among the strict ancestors, if any.\<close>

definition nearestInstanceName :: "node list \<times> node \<Rightarrow> string option" where
  "nearestInstanceName p = lastName (map nname (instanceAncestors (fst p)))"

section \<open>Views used in the proofs\<close>

text \<open>A record as the audit sees it: its fields, with the path read through the store.\<close>

type_synonym recView = "node \<times> int \<times> string option \<times> string list"

definition recordView :: "store \<Rightarrow> instanceData \<Rightarrow> recView" where
  "recordView h r = (node r, level r, parentName r, h ! parentPath r)"

text \<open>
  The views the traversal leaves behind, as a function of the tree alone: the chain of
  an INSTANCE ends with the node's own name, since the cell was extended after the
  record had been built.
\<close>

fun stored_records :: "node \<Rightarrow> int \<Rightarrow> string list \<Rightarrow> recView list" where
  "stored_records (Node ty nm i ch) lvl chain =
     (if ty = ''INSTANCE''
      then [(Node ty nm i ch, lvl, (if chain = [] then None else Some (last chain)), chain @ [nm])]
      else []) @
     (case ch of None \<Rightarrow> []
      | Some cs \<Rightarrow> concat (map (\<lambda>c. stored_records c (lvl + (if ty = ''INSTANCE'' then 1 else 0))
                                     (if ty = ''INSTANCE'' then chain @ [nm] else chain)) cs))"

definition storedView :: "node list \<times> node \<Rightarrow> recView" where
  "storedView p =
     (snd p, instanceDepth p, nearestInstanceName p,
      map nname (instanceAncestors (fst p)) @ [nname (snd p)])"

definition locator_post :: "store \<Rightarrow> instanceData list \<times> store \<Rightarrow> recView list \<Rightarrow> bool" where
  "locator_post h res expected =
     (case res of (rs, h') \<Rightarrow>
        (\<exists>ext. h' = h @ ext) \<and> (\<forall>r\<in>set rs. parentPath r < length h') \<and>
        map (recordView h') rs = expected)"

definition unlinked :: "host \<Rightarrow> instanceData \<Rightarrow> bool" where
  "unlinked env r = (\<not> isComponentLinked env (node r))"

definition issueOf :: "store \<Rightarrow> instanceData list \<Rightarrow> instanceData \<Rightarrow> issue" where
  "issueOf h instances r =
     \<lparr>issue_name = nname (node r), issue_id = nid (node r), issue_type = ''NOT_LINKED'',
      issue_level = level r, issue_parentPath = parentPath r, issue_parentName = parentName r,
      issue_parentId = findParentId h instances r\<rparr>"

definition viewParentId :: "recView list \<Rightarrow> recView \<Rightarrow> string option" where
  "viewParentId views v =
     (let chain = snd (snd (snd v)) in
      if chain = [] then None
      else map_option (\<lambda>w. nid (fst w))
             (find (\<lambda>w. nname (fst w) = last chain \<and> fst (snd w) = fst (snd v) - 1) views))"

definition viewContent :: "recView list \<Rightarrow> recView \<Rightarrow> issueContent" where
  "viewContent views v =
     (nname (fst v), nid (fst v), ''NOT_LINKED'', fst (snd v), snd (snd (snd v)),
      fst (snd (snd v)), viewParentId views v)"

definition expected_content :: "host \<Rightarrow> node \<Rightarrow> resultContent" where
  "expected_content env frame =
     (let views = map storedView (instancePositions frame);
          flagged = filter (\<lambda>v. \<not> isComponentLinked env (fst v)) views
      in (length views, length flagged, map (viewContent views) flagged, nname frame))"

section \<open>Example documents\<close>

text \<open>
  A frame holding the instance Btn, which holds the instance Icon; a host in which every
  main component is local; a frame holding an instance X nested in another instance X,
  with a host in which only the outer one comes from a library; and a plain shape.
\<close>

definition icon_node :: node where
  "icon_node = Node ''INSTANCE'' ''Icon'' ''1:2'' (Some [])"

definition btn_node :: node where
  "btn_node = Node ''INSTANCE'' ''Btn'' ''1:1'' (Some [icon_node])"

definition root_R :: node where
  "root_R = Node ''FRAME'' ''R'' ''0:1'' (Some [btn_node])"

definition all_local :: host where
  "all_local n = Returns (Some (MainComponent (JBool False)))"

definition inner_X :: node where
  "inner_X = Node ''INSTANCE'' ''X'' ''2:2'' (Some [])"

definition outer_X :: node where
  "outer_X = Node ''INSTANCE'' ''X'' ''2:1'' (Some [inner_X])"

definition root_XX :: node where
  "root_XX = Node ''FRAME'' ''F'' ''0:2'' (Some [outer_X])"

definition outer_remote :: host where
  "outer_remote n =
     (if nid n = ''2:1'' then Returns (Some (MainComponent (JBool True)))
      else Returns (Some (MainComponent (JBool False))))"

definition shape_node :: node where
  "shape_node = Node ''RECTANGLE'' ''Rect'' ''3:1'' None"

text \<open>
  Readings of a traversal and of a result: for each record its name, its \<open>parentName\<close>
  and the chain its address holds after the traversal; for each issue its name, its
  identifier and its \<open>parentId\<close>; and the unlinked records of a given name and level.
\<close>

definition stored_chains :: "node \<Rightarrow> store \<Rightarrow> (string \<times> string option \<times> string list) list" where
  "stored_chains root h =
     (case locate root h of (rs, h') \<Rightarrow>
        map (\<lambda>r. (nname (node r), parentName r, h' ! parentPath r)) rs)"

definition issue_parents :: "scanResult \<Rightarrow> (string \<times> string \<times> string option) list" where
  "issue_parents res = map (\<lambda>i. (issue_name i, issue_id i, issue_parentId i)) (issues res)"

definition unlinked_matches :: "host \<Rightarrow> instanceData list \<Rightarrow> string \<Rightarrow> int \<Rightarrow> instanceData list" where
  "unlinked_matches env rs nm lvl =
     filter (\<lambda>r. nname (node r) = nm \<and> level r = lvl \<and> unlinked env r) rs"

section \<open>The traversal and the store\<close>

text \<open>
  The traversal only appends cells to the store and only updates the cell it has just
  allocated, so what a record's address holds at the end is fixed by the tree: the
  views of the records are \<open>stored_records\<close>, and these are the INSTANCE positions of
  the pre-order walk.
\<close>

lemma recordView_append:
  "parentPath r < length h \<Longrightarrow> recordView (h @ ext) r = recordView h r"
  by (simp add: recordView_def nth_append)

lemma map_recordView_append:
  "\<forall>r\<in>set rs. parentPath r < length h \<Longrightarrow> map (recordView (h @ ext)) rs = map (recordView h) rs"
  by (simp add: recordView_append)


lemma findAll_INSTANCE:
  "findAllComponentInstances (Node ''INSTANCE'' nm i ch) lvl pp h =
     (case ch of
        None \<Rightarrow> ([\<lparr>node = Node ''INSTANCE'' nm i ch, level = lvl, parentPath = length h,
                    parentName = (if h ! pp = [] then None else Some (last (h ! pp)))\<rparr>],
                  h @ [h ! pp @ [nm]])
      | Some cs \<Rightarrow> findAll_children cs (lvl + 1) (length h)
                  [\<lparr>node = Node ''INSTANCE'' nm i ch, level = lvl, parentPath = length h,
                    parentName = (if h ! pp = [] then None else Some (last (h ! pp)))\<rparr>]
                  (h @ [h ! pp @ [nm]]))"
  by (simp add: Let_def last_conv_nth split: option.splits)

lemma findAll_other:
  "ty \<noteq> ''INSTANCE'' \<Longrightarrow>
   findAllComponentInstances (Node ty nm i ch) lvl pp h =
     (case ch of None \<Rightarrow> ([], h @ [h ! pp])
      | Some cs \<Rightarrow> findAll_children cs lvl (length h) [] (h @ [h ! pp]))"
  by (simp add: Let_def split: option.splits)

lemma findAll_refines:
  "(pp < length h \<longrightarrow>
      locator_post h (findAllComponentInstances n lvl pp h) (stored_records n lvl (h ! pp)))"
  "(cp < length h \<longrightarrow> (\<forall>r\<in>set acc. parentPath r < length h) \<longrightarrow>
      locator_post h (findAll_children cs lvl cp acc h)
        (map (recordView h) acc @ concat (map (\<lambda>c. stored_records c lvl (h ! cp)) cs)))"
proof (induction n lvl pp h and cs lvl cp acc h rule: findAllComponentInstances_findAll_children.induct)
  case (1 ty nm i ch lvl pp h)
  show ?case
  proof (intro impI)
    assume pp: "pp < length h"
    let ?cp = "length h"
    let ?h1 = "h @ [h ! pp]"
    show "locator_post h (findAllComponentInstances (Node ty nm i ch) lvl pp h)
            (stored_records (Node ty nm i ch) lvl (h ! pp))"
    proof (cases "ty = ''INSTANCE''")
      case True
      let ?h2 = "h @ [h ! pp @ [nm]]"
      let ?r = "\<lparr>node = Node ty nm i ch, level = lvl, parentPath = ?cp,
                  parentName = (if h ! pp = [] then None else Some (last (h ! pp)))\<rparr>"
      have h2: "?h1[?cp := (?h1 ! ?cp) @ [nm]] = ?h2" by simp
      have pn: "(if length (?h1 ! ?cp) > 0 then Some (?h1 ! ?cp ! (length (?h1 ! ?cp) - 1)) else None)
                 = (if h ! pp = [] then None else Some (last (h ! pp)))"
        by (simp add: last_conv_nth)
      show ?thesis
      proof (cases ch)
        case None
        then show ?thesis using True
          by (simp add: findAll_INSTANCE locator_post_def recordView_def del: findAllComponentInstances.simps)
      next
        case (Some cs)
        have IH: "locator_post ?h2 (findAll_children cs (lvl + 1) ?cp [?r] ?h2)
                (map (recordView ?h2) [?r] @ concat (map (\<lambda>c. stored_records c (lvl + 1) (?h2 ! ?cp)) cs))"
          using "1.IH"[OF refl refl _ refl Some, of "[?r]" ?h2] True pn h2
          by simp
        have fa: "findAllComponentInstances (Node ty nm i ch) lvl pp h
                   = findAll_children cs (lvl + 1) ?cp [?r] ?h2"
          using True Some by (simp add: findAll_INSTANCE del: findAllComponentInstances.simps)
        show ?thesis
          unfolding fa using IH True Some
          by (auto simp: locator_post_def recordView_def split: prod.splits)
      qed
    next
      case False
      show ?thesis
      proof (cases ch)
        case None
        then show ?thesis using False
          by (simp add: findAll_other locator_post_def del: findAllComponentInstances.simps)
      next
        case (Some cs)
        have IH: "locator_post ?h1 (findAll_children cs lvl ?cp [] ?h1)
                (map (recordView ?h1) [] @ concat (map (\<lambda>c. stored_records c lvl (?h1 ! ?cp)) cs))"
          using "1.IH"[OF refl refl _ refl Some, of "[]" ?h1] False
          by simp
        have fa: "findAllComponentInstances (Node ty nm i ch) lvl pp h
                   = findAll_children cs lvl ?cp [] ?h1"
          using False Some by (simp add: findAll_other del: findAllComponentInstances.simps)
        show ?thesis
          unfolding fa using IH False Some
          by (auto simp: locator_post_def split: prod.splits)
      qed
    qed
  qed
next
  case (2 lvl cp instances h)
  then show ?case by (simp add: locator_post_def)
next
  case (3 c cs lvl cp instances h)
  show ?case
  proof (intro impI)
    assume cp: "cp < length h" and acc: "\<forall>r\<in>set instances. parentPath r < length h"
    obtain r h' where res: "findAllComponentInstances c lvl cp h = (r, h')"
      by (cases "findAllComponentInstances c lvl cp h")
    from "3.IH"(1) cp res have p1: "locator_post h (r, h') (stored_records c lvl (h ! cp))" by simp
    then obtain ext where ext: "h' = h @ ext"
      and rb: "\<forall>x\<in>set r. parentPath x < length h'"
      and rv: "map (recordView h') r = stored_records c lvl (h ! cp)"
      by (auto simp: locator_post_def)
    have cp': "cp < length h'" using cp ext by simp
    have acc': "\<forall>x\<in>set (instances @ r). parentPath x < length h'"
      using acc rb ext by auto
    from "3.IH"(2)[OF res[symmetric] refl] cp' acc'
    have p2: "locator_post h' (findAll_children cs lvl cp (instances @ r) h')
               (map (recordView h') (instances @ r) @ concat (map (\<lambda>c. stored_records c lvl (h' ! cp)) cs))"
      by simp
    have hcp: "h' ! cp = h ! cp" using cp ext by (simp add: nth_append)
    have mi: "map (recordView h') instances = map (recordView h) instances"
      using acc ext map_recordView_append by blast
    show "locator_post h (findAll_children (c # cs) lvl cp instances h)
        (map (recordView h) instances @ concat (map (\<lambda>c. stored_records c lvl (h ! cp)) (c # cs)))"
      using p2 res ext hcp mi rv
      by (auto simp: locator_post_def)
  qed
qed


lemma stored_records_positions:
  "stored_records n (int (length (instanceAncestors anc))) (map nname (instanceAncestors anc))
     = map storedView (filter (\<lambda>p. isInstance (snd p)) (positions anc n))"
proof (induction anc n rule: positions.induct)
  case (1 anc ty nm i ch)
  let ?n = "Node ty nm i ch"
  let ?P = "\<lambda>p::node list \<times> node. isInstance (snd p)"
  show ?case
  proof (cases ch)
    case None
    then show ?thesis
      by (simp add: storedView_def lastName_def isInstance_def instanceDepth_def
            nearestInstanceName_def)
  next
    case (Some cs)
    define L where "L = int (length (instanceAncestors anc)) + (if ty = ''INSTANCE'' then 1 else 0)"
    define C where "C = (if ty = ''INSTANCE'' then map nname (instanceAncestors anc) @ [nm]
           else map nname (instanceAncestors anc))"
    have ia: "instanceAncestors (anc @ [?n]) =
                (if ty = ''INSTANCE'' then instanceAncestors anc @ [?n] else instanceAncestors anc)"
      by (simp add: instanceAncestors_def isInstance_def)
    have L: "L = int (length (instanceAncestors (anc @ [?n])))"
      by (simp add: L_def ia)
    have C: "C = map nname (instanceAncestors (anc @ [?n]))"
      by (simp add: C_def ia)
    have kids: "map (\<lambda>c. stored_records c L C) cs
        = map (\<lambda>c. map storedView (filter ?P (positions (anc @ [?n]) c))) cs"
    proof (rule map_cong[OF refl])
      fix c assume c: "c \<in> set cs"
      show "stored_records c L C = map storedView (filter ?P (positions (anc @ [?n]) c))"
        unfolding L C by (rule "1.IH"[OF Some c])
    qed
    have lhs: "stored_records ?n (int (length (instanceAncestors anc))) (map nname (instanceAncestors anc))
        = (if ty = ''INSTANCE'' then [storedView (anc, ?n)] else [])
          @ concat (map (\<lambda>c. stored_records c L C) cs)"
      by (simp add: Some L_def C_def storedView_def lastName_def instanceDepth_def nearestInstanceName_def)
    have rhs: "map storedView (filter ?P (positions anc ?n))
        = (if ty = ''INSTANCE'' then [storedView (anc, ?n)] else [])
          @ concat (map (\<lambda>c. map storedView (filter ?P (positions (anc @ [?n]) c))) cs)"
      by (simp add: Some isInstance_def map_concat filter_concat comp_def)
    show ?thesis
      unfolding lhs rhs kids ..
  qed
qed

lemma map_snd_positions: "map snd (positions anc n) = preorder n"
proof (induction anc n rule: positions.induct)
  case (1 anc ty nm i ch)
  show ?case
  proof (cases ch)
    case None
    then show ?thesis by simp
  next
    case (Some cs)
    have eq: "concat (map (\<lambda>c. map snd (positions (anc @ [Node ty nm i (Some cs)]) c)) cs)
                = concat (map preorder cs)"
      using "1.IH"[OF Some] by (simp add: Some cong: map_cong)
    show ?thesis by (simp add: Some map_concat comp_def eq)
  qed
qed

lemma locate_view:
  assumes "locate root h = (rs, h')"
  shows "(\<exists>ext. h' = h @ [] # ext) \<and> (\<forall>r\<in>set rs. parentPath r < length h') \<and>
         map (recordView h') rs = map storedView (instancePositions root)"
proof -
  have "locator_post (h @ [[]]) (rs, h') (stored_records root 0 ((h @ [[]]) ! length h))"
    using findAll_refines(1)[of "length h" "h @ [[]]" root 0] assms
    by (simp add: locate_def)
  moreover have "stored_records root 0 [] = map storedView (instancePositions root)"
    using stored_records_positions[of root "[]"]
    by (simp add: instancePositions_def instanceAncestors_def)
  ultimately show ?thesis
    by (auto simp: locator_post_def)
qed


lemma scan_loop_issues:
  "fst (scan_loop env h instances rs acc)
     = fst acc @ map (issueOf h instances) (filter (unlinked env) rs)"
proof (induction rs arbitrary: acc)
  case Nil
  show ?case by simp
next
  case (Cons r rs)
  obtain iss m where acc: "acc = (iss, m)" by (cases acc)
  show ?case
    unfolding acc by (simp add: Cons.IH unlinked_def issueOf_def Let_def)
qed

lemma scan_unfold:
  "scanFrameForComponents env frame h =
     (\<lparr>totalComponents = length (fst (locate frame h)),
       totalIssues = length (filter (unlinked env) (fst (locate frame h))),
       issues = map (issueOf (snd (locate frame h)) (fst (locate frame h)))
                  (filter (unlinked env) (fst (locate frame h))),
       frameName = nname frame\<rparr>, snd (locate frame h))"
proof -
  obtain rs h' where l: "locate frame h = (rs, h')" by (cases "locate frame h")
  obtain iss m where s: "scan_loop env h' rs rs ([], Map.empty) = (iss, m)"
    by (cases "scan_loop env h' rs rs ([], Map.empty)")
  have "iss = map (issueOf h' rs) (filter (unlinked env) rs)"
    using scan_loop_issues[of env h' rs rs "([], Map.empty)"] s by simp
  then show ?thesis
    by (simp add: scanFrameForComponents_def l s)
qed

lemma find_map_option:
  "find P (map f xs) = map_option f (find (\<lambda>x. P (f x)) xs)"
  by (induction xs) auto


lemma findParentId_last:
  "findParentId h instances r =
     (if h ! parentPath r = [] then None
      else map_option (\<lambda>p. nid (node p))
             (find (\<lambda>inst. nname (node inst) = last (h ! parentPath r)
                            \<and> level inst = level r - 1) instances))"
proof (cases "h ! parentPath r = []")
  case True
  then show ?thesis by (simp add: findParentId_def)
next
  case False
  then have e: "h ! parentPath r ! (length (h ! parentPath r) - Suc 0) = last (h ! parentPath r)"
    by (simp add: last_conv_nth)
  show ?thesis using False
    by (simp add: findParentId_def Let_def e split: option.splits)
qed

lemma findParentId_view:
  "findParentId h instances r = viewParentId (map (recordView h) instances) (recordView h r)"
  by (simp add: findParentId_last viewParentId_def find_map_option recordView_def
        option.map_comp comp_def)


lemma issue_content_view:
  "issue_content h (issueOf h instances r)
     = viewContent (map (recordView h) instances) (recordView h r)"
  by (simp add: issue_content_def issueOf_def viewContent_def findParentId_view)
     (simp add: recordView_def)


lemma scan_content:
  "result_content (snd (scanFrameForComponents env frame h)) (fst (scanFrameForComponents env frame h))
     = expected_content env frame"
proof -
  obtain rs h' where l: "locate frame h = (rs, h')" by (cases "locate frame h")
  have v: "map (recordView h') rs = map storedView (instancePositions frame)"
    using locate_view[OF l] by simp
  have f: "map (recordView h') (filter (unlinked env) rs)
            = filter (\<lambda>v. \<not> isComponentLinked env (fst v)) (map (recordView h') rs)"
    by (simp add: filter_map comp_def unlinked_def[abs_def] recordView_def)
  have c: "map (issue_content h') (map (issueOf h' rs) (filter (unlinked env) rs))
            = map (viewContent (map (recordView h') rs)) (map (recordView h') (filter (unlinked env) rs))"
    by (simp add: issue_content_view)
  have len1: "length rs = length (map (recordView h') rs)" by simp
  have len2: "length (filter (unlinked env) rs) = length (map (recordView h') (filter (unlinked env) rs))" by simp
  show ?thesis
    unfolding scan_unfold result_content_def expected_content_def l
    apply (simp only: fst_conv snd_conv scanResult.simps Let_def c)
    apply (subst len1, subst len2)
    apply (simp only: f v)
    done
qed

lemma map_snd_instancePositions:
  "map snd (instancePositions T) = filter isInstance (preorder T)"
proof -
  have "filter isInstance (map snd (positions [] T))
          = map snd (filter (\<lambda>p. isInstance (snd p)) (positions [] T))"
    by (simp add: filter_map comp_def)
  then show ?thesis
    by (simp add: instancePositions_def map_snd_positions)
qed

lemma locate_views:
  "map (recordView (snd (locate T h))) (fst (locate T h)) = map storedView (instancePositions T)"
  using locate_view[of T h "fst (locate T h)" "snd (locate T h)"] by simp

lemma locate_nodes:
  "map node (fst (locate T h)) = filter isInstance (preorder T)"
proof -
  have "map node (fst (locate T h)) = map fst (map (recordView (snd (locate T h))) (fst (locate T h)))"
    by (simp add: recordView_def comp_def)
  also have "\<dots> = map snd (instancePositions T)"
    unfolding locate_views by (simp add: storedView_def comp_def)
  finally show ?thesis by (simp add: map_snd_instancePositions)
qed

lemma locate_chain_ends_with_own_name:
  "map (\<lambda>r. snd (locate T h) ! parentPath r) (fst (locate T h))
     = map (\<lambda>p. map nname (instanceAncestors (fst p)) @ [nname (snd p)]) (instancePositions T)"
proof -
  have "map (\<lambda>r. snd (locate T h) ! parentPath r) (fst (locate T h))
          = map (\<lambda>v. snd (snd (snd v))) (map (recordView (snd (locate T h))) (fst (locate T h)))"
    by (simp add: recordView_def comp_def)
  also have "\<dots> = map (\<lambda>p. map nname (instanceAncestors (fst p)) @ [nname (snd p)]) (instancePositions T)"
    unfolding locate_views by (simp add: storedView_def comp_def)
  finally show ?thesis .
qed

lemma locate_extends_store:
  "\<exists>ext. snd (locate T h) = h @ [] # ext"
  using locate_view[of T h "fst (locate T h)" "snd (locate T h)"] by simp

lemma locate_addresses_bounded:
  "r \<in> set (fst (locate T h)) \<Longrightarrow> parentPath r < length (snd (locate T h))"
  using locate_view[of T h "fst (locate T h)" "snd (locate T h)"] by simp

lemma result_content_extend:
  assumes "\<forall>iss\<in>set (issues res). issue_parentPath iss < length h"
  shows "result_content (h @ ext) res = result_content h res"
  using assms by (simp add: result_content_def issue_content_def nth_append)

section \<open>Ancestors come first in the walk\<close>

lemma concat_split_elem:
  "concat xss = pre @ y # post \<Longrightarrow>
   \<exists>xss1 p1 p2 xss2. xss = xss1 @ (p1 @ y # p2) # xss2 \<and> pre = concat xss1 @ p1"
proof (induction xss arbitrary: pre)
  case Nil
  then show ?case by simp
next
  case (Cons xs xss)
  from Cons.prems have e: "xs @ concat xss = pre @ y # post" by simp
  then consider (later) us where "pre = xs @ us" "concat xss = us @ y # post"
    | (here) vs where "xs = pre @ y # vs"
  proof -
    from e obtain ws where
      "(xs = pre @ ws \<and> ws @ concat xss = y # post) \<or> (xs @ ws = pre \<and> concat xss = ws @ y # post)"
      by (auto simp: append_eq_append_conv2)
    then show ?thesis
    proof
      assume a: "xs = pre @ ws \<and> ws @ concat xss = y # post"
      show ?thesis
      proof (cases ws)
        case Nil
        with a have "pre = xs @ []" "concat xss = [] @ y # post" by simp_all
        then show ?thesis by (rule later)
      next
        case (Cons w ws')
        with a have "xs = pre @ y # ws'" by simp
        then show ?thesis by (rule here)
      qed
    next
      assume "xs @ ws = pre \<and> concat xss = ws @ y # post"
      then have "pre = xs @ ws" "concat xss = ws @ y # post" by simp_all
      then show ?thesis by (rule later)
    qed
  qed
  then show ?case
  proof cases
    case later
    from Cons.IH[OF later(2)] obtain xss1 p1 p2 xss2 where
      "xss = xss1 @ (p1 @ y # p2) # xss2" "us = concat xss1 @ p1" by blast
    then have "xs # xss = (xs # xss1) @ (p1 @ y # p2) # xss2 \<and> pre = concat (xs # xss1) @ p1"
      using later(1) by simp
    then show ?thesis by blast
  next
    case here
    then have "xs # xss = [] @ (pre @ y # vs) # xss \<and> pre = concat [] @ pre" by simp
    then show ?thesis by blast
  qed
qed

lemma positions_ancestors_first:
  "positions anc n = pre @ (a, m) # post \<Longrightarrow>
   \<exists>rel. a = anc @ rel \<and> (\<forall>k<length rel. (anc @ take k rel, rel ! k) \<in> set pre)"
proof (induction anc n arbitrary: pre a m post rule: positions.induct)
  case (1 anc ty nm i ch)
  let ?n = "Node ty nm i ch"
  let ?rest = "(case ch of None \<Rightarrow> [] | Some cs \<Rightarrow> concat (map (positions (anc @ [?n])) cs))"
  from "1.prems" have e: "(anc, ?n) # ?rest = pre @ (a, m) # post" by simp
  show ?case
  proof (cases pre)
    case Nil
    with e have "a = anc" by simp
    then show ?thesis using Nil by simp
  next
    case (Cons p pre')
    with e have p: "p = (anc, ?n)" and r: "?rest = pre' @ (a, m) # post" by simp_all
    from r obtain cs where cs: "ch = Some cs"
      and c: "concat (map (positions (anc @ [?n])) cs) = pre' @ (a, m) # post"
      by (cases ch) simp_all
    from concat_split_elem[OF c] obtain xss1 p1 p2 xss2 where
      m: "map (positions (anc @ [?n])) cs = xss1 @ (p1 @ (a, m) # p2) # xss2"
      and pre': "pre' = concat xss1 @ p1" by blast
    from m have "(p1 @ (a, m) # p2) \<in> set (map (positions (anc @ [?n])) cs)" by simp
    then obtain c where cin: "c \<in> set cs" and pc: "positions (anc @ [?n]) c = p1 @ (a, m) # p2"
      by auto
    from "1.IH"[OF cs cin pc] obtain rel' where
      a: "a = (anc @ [?n]) @ rel'"
      and k: "\<forall>k<length rel'. ((anc @ [?n]) @ take k rel', rel' ! k) \<in> set p1" by blast
    have "a = anc @ (?n # rel')" using a by simp
    moreover have "\<forall>k<length (?n # rel'). (anc @ take k (?n # rel'), (?n # rel') ! k) \<in> set pre"
    proof (intro allI impI)
      fix j assume j: "j < length (?n # rel')"
      show "(anc @ take j (?n # rel'), (?n # rel') ! j) \<in> set pre"
      proof (cases j)
        case 0
        then show ?thesis using Cons p by simp
      next
        case (Suc j')
        with j have "j' < length rel'" by simp
        with k have "((anc @ [?n]) @ take j' rel', rel' ! j') \<in> set p1" by blast
        then show ?thesis using Suc Cons pre' by simp
      qed
    qed
    ultimately show ?thesis by blast
  qed
qed

lemma filter_split_elem:
  "filter P xs = pre @ y # post \<Longrightarrow>
   \<exists>us vs. xs = us @ y # vs \<and> filter P us = pre \<and> P y"
proof (induction pre arbitrary: xs)
  case Nil
  then have "filter P xs = y # post" by simp
  from filter_eq_ConsD[OF this] obtain us vs where
    "xs = us @ y # vs" "\<forall>u\<in>set us. \<not> P u" "P y" by blast
  then have "xs = us @ y # vs \<and> filter P us = [] \<and> P y" by simp
  then show ?case by blast
next
  case (Cons p pre)
  then have "filter P xs = p # (pre @ y # post)" by simp
  from filter_eq_ConsD[OF this] obtain us0 vs0 where
    xs: "xs = us0 @ p # vs0" and no: "\<forall>u\<in>set us0. \<not> P u" and p: "P p"
    and rest: "pre @ y # post = filter P vs0" by blast
  from Cons.IH[OF rest[symmetric]] obtain us1 vs1 where
    "vs0 = us1 @ y # vs1" "filter P us1 = pre" "P y" by blast
  then have "xs = (us0 @ p # us1) @ y # vs1 \<and> filter P (us0 @ p # us1) = p # pre \<and> P y"
    using xs no p by simp
  then show ?case by blast
qed

lemma instancePositions_ancestors_first:
  assumes "instancePositions T = pre @ (a, m) # post" and "k < length a" and "isInstance (a ! k)"
  shows "(take k a, a ! k) \<in> set pre"
proof -
  let ?P = "\<lambda>p::node list \<times> node. isInstance (snd p)"
  from assms(1) have "filter ?P (positions [] T) = pre @ (a, m) # post"
    by (simp add: instancePositions_def)
  from filter_split_elem[OF this] obtain us vs where
    ps: "positions [] T = us @ (a, m) # vs" and us: "filter ?P us = pre" by blast
  from positions_ancestors_first[OF ps] assms(2)
  have "(take k a, a ! k) \<in> set us" by simp
  moreover have "?P (take k a, a ! k)" using assms(3) by simp
  ultimately have "(take k a, a ! k) \<in> set (filter ?P us)" by simp
  then show ?thesis using us by simp
qed

lemma find_exists: "(\<exists>y. find P xs = Some y) = (\<exists>x\<in>set xs. P x)"
  by (induction xs) auto

section \<open>The example documents, evaluated\<close>

lemma locate_root_R:
  "locate root_R [] =
     ([\<lparr>node = btn_node, level = 0, parentPath = 2, parentName = None\<rparr>,
       \<lparr>node = icon_node, level = 1, parentPath = 3, parentName = Some ''Btn''\<rparr>],
      [[], [], [''Btn''], [''Btn'', ''Icon'']])"
  by (simp add: locate_def root_R_def btn_node_def icon_node_def Let_def)

lemma locate_root_XX:
  "locate root_XX [] =
     ([\<lparr>node = outer_X, level = 0, parentPath = 2, parentName = None\<rparr>,
       \<lparr>node = inner_X, level = 1, parentPath = 3, parentName = Some ''X''\<rparr>],
      [[], [], [''X''], [''X'', ''X'']])"
  by (simp add: locate_def root_XX_def outer_X_def inner_X_def Let_def)

lemma scan_root_R:
  "scanFrameForComponents all_local root_R [] =
     (\<lparr>totalComponents = 2, totalIssues = 2,
       issues = [\<lparr>issue_name = ''Btn'', issue_id = ''1:1'', issue_type = ''NOT_LINKED'',
                   issue_level = 0, issue_parentPath = 2, issue_parentName = None,
                   issue_parentId = None\<rparr>,
                 \<lparr>issue_name = ''Icon'', issue_id = ''1:2'', issue_type = ''NOT_LINKED'',
                   issue_level = 1, issue_parentPath = 3, issue_parentName = Some ''Btn'',
                   issue_parentId = None\<rparr>],
       frameName = ''R''\<rparr>,
      [[], [], [''Btn''], [''Btn'', ''Icon'']])"
  unfolding scan_unfold locate_root_R
  by (simp add: unlinked_def isComponentLinked_def all_local_def issueOf_def findParentId_def
        btn_node_def icon_node_def root_R_def)

lemma scan_root_XX:
  "scanFrameForComponents outer_remote root_XX [] =
     (\<lparr>totalComponents = 2, totalIssues = 1,
       issues = [\<lparr>issue_name = ''X'', issue_id = ''2:2'', issue_type = ''NOT_LINKED'',
                   issue_level = 1, issue_parentPath = 3, issue_parentName = Some ''X'',
                   issue_parentId = Some ''2:1''\<rparr>],
       frameName = ''F''\<rparr>,
      [[], [], [''X''], [''X'', ''X'']])"
  unfolding scan_unfold locate_root_XX
  by (simp add: unlinked_def isComponentLinked_def outer_remote_def issueOf_def findParentId_def
        outer_X_def inner_X_def root_XX_def)

lemma instancePositions_root_R:
  "instancePositions root_R = [([root_R], btn_node), ([root_R, btn_node], icon_node)]"
  by (simp add: instancePositions_def root_R_def btn_node_def icon_node_def isInstance_def)

section \<open>The records of the locator\<close>

text \<open>
  C1. The specification has each record's chain list only the INSTANCE ancestors strictly
  above the node, never the node's own name, and never change once the record is built.
  On the frame R holding Btn holding Icon the code leaves, after the traversal, the
  chain of Btn as [Btn] and the chain of Icon as [Btn, Icon]: each ends with the node's
  own name, although \<open>parentName\<close>, read when the record was built, is still absent for
  Btn and Btn for Icon. The record keeps the address of \<open>currentPath\<close>, and the later
  \<^verbatim>\<open>push\<close> extends that same array (for every tree: \<open>locate_chain_ends_with_own_name\<close>).
\<close>

theorem locate_chain_holds_own_name:
  "stored_chains root_R [] =
     [(''Btn'', None, [''Btn'']), (''Icon'', Some ''Btn'', [''Btn'', ''Icon''])]"
  by (simp add: stored_chains_def locate_root_R btn_node_def icon_node_def)

text \<open>
  C5. For every tree T (a value of the datatype, hence finite and acyclic), the locator
  emits exactly one record for each INSTANCE position of T and none for any other node:
  the records, read as pairs of node and level, are the INSTANCE positions of the walk,
  each with the number of INSTANCE nodes among its strict ancestors; and the number of
  records is the number of INSTANCE nodes of T.
\<close>

theorem locate_instances_levels:
  "map (\<lambda>r. (node r, level r)) (fst (locate T h))
     = map (\<lambda>p. (snd p, instanceDepth p)) (instancePositions T)
   \<and> length (fst (locate T h)) = length (filter isInstance (preorder T))"
proof -
  have "map (\<lambda>r. (node r, level r)) (fst (locate T h))
          = map (\<lambda>v. (fst v, fst (snd v))) (map (recordView (snd (locate T h))) (fst (locate T h)))"
    by (simp add: recordView_def comp_def)
  also have "\<dots> = map (\<lambda>p. (snd p, instanceDepth p)) (instancePositions T)"
    unfolding locate_views by (simp add: storedView_def comp_def)
  finally have a: "map (\<lambda>r. (node r, level r)) (fst (locate T h))
     = map (\<lambda>p. (snd p, instanceDepth p)) (instancePositions T)" .
  have b: "length (fst (locate T h)) = length (filter isInstance (preorder T))"
    using arg_cong[OF locate_nodes[of T h], of length] by simp
  from a b show ?thesis by simp
qed

text \<open>
  C10. For every emitted record, \<open>parentName\<close> is the display name of the nearest strict
  INSTANCE ancestor of the node, and absent when the node has none.
\<close>

theorem parentName_nearest_instance:
  "map (\<lambda>r. (node r, parentName r)) (fst (locate T h))
     = map (\<lambda>p. (snd p, nearestInstanceName p)) (instancePositions T)"
proof -
  have "map (\<lambda>r. (node r, parentName r)) (fst (locate T h))
          = map (\<lambda>v. (fst v, fst (snd (snd v)))) (map (recordView (snd (locate T h))) (fst (locate T h)))"
    by (simp add: recordView_def comp_def)
  also have "\<dots> = map (\<lambda>p. (snd p, nearestInstanceName p)) (instancePositions T)"
    unfolding locate_views by (simp add: storedView_def comp_def)
  finally show ?thesis .
qed

section \<open>The issues of the auditor\<close>

text \<open>
  C2, as the specification states it, fails. In the frame F an instance X (identifier 2:1, from
  a library) holds an instance X (identifier 2:2, local). The only issue is the inner X,
  of level 1, whose nearest ancestor instance name is X; no record named X of level 0
  is unlinked, and yet its \<open>parentId\<close> is set, to 2:1.
\<close>

theorem parentId_points_to_linked_record:
  "issue_parents (fst (scanFrameForComponents outer_remote root_XX [])) =
     [(''X'', ''2:2'', Some ''2:1'')]
   \<and> map issue_parentName (issues (fst (scanFrameForComponents outer_remote root_XX [])))
       = [Some ''X'']
   \<and> map issue_level (issues (fst (scanFrameForComponents outer_remote root_XX []))) = [1]
   \<and> unlinked_matches outer_remote (fst (locate root_XX [])) ''X'' (1 - 1) = []"
  by (simp add: issue_parents_def scan_root_XX locate_root_XX unlinked_matches_def unlinked_def
        isComponentLinked_def outer_remote_def outer_X_def inner_X_def)

text \<open>
  C2, amended. For every issue of a scan, \<open>parentId\<close> is set if and only if the chain
  the issue carries, as the audit reads it, is not empty and some located record,
  linked or not, has as display name the last name of that chain and as level the
  issue's level minus one; it is then the identifier of the first such record in
  traversal order. Such a record is another record, since its level differs.
\<close>

theorem audit_parentId:
  assumes "iss \<in> set (issues (fst (scanFrameForComponents env frame h)))"
  shows "(issue_parentId iss \<noteq> None) =
           (snd (scanFrameForComponents env frame h) ! issue_parentPath iss \<noteq> [] \<and>
            (\<exists>r\<in>set (fst (locate frame h)).
               nname (node r) = last (snd (scanFrameForComponents env frame h) ! issue_parentPath iss)
               \<and> level r = issue_level iss - 1))
         \<and> issue_parentId iss =
             (if snd (scanFrameForComponents env frame h) ! issue_parentPath iss = [] then None
              else map_option (\<lambda>p. nid (node p))
                     (find (\<lambda>r. nname (node r)
                                  = last (snd (scanFrameForComponents env frame h) ! issue_parentPath iss)
                                \<and> level r = issue_level iss - 1)
                        (fst (locate frame h))))"
proof -
  let ?rs = "fst (locate frame h)" and ?h = "snd (locate frame h)"
  from assms obtain r where iss: "iss = issueOf ?h ?rs r"
    by (auto simp: scan_unfold)
  have s: "snd (scanFrameForComponents env frame h) = ?h" by (simp add: scan_unfold)
  have v: "issue_parentId iss =
             (if ?h ! issue_parentPath iss = [] then None
              else map_option (\<lambda>p. nid (node p))
                     (find (\<lambda>r. nname (node r) = last (?h ! issue_parentPath iss)
                                \<and> level r = issue_level iss - 1) ?rs))"
    unfolding iss by (simp add: issueOf_def findParentId_last)
  have "(issue_parentId iss \<noteq> None) =
           (?h ! issue_parentPath iss \<noteq> [] \<and>
            (\<exists>r\<in>set ?rs. nname (node r) = last (?h ! issue_parentPath iss)
               \<and> level r = issue_level iss - 1))"
    unfolding v
    by (cases "?h ! issue_parentPath iss = []") (simp_all add: find_exists)
  then show ?thesis unfolding s using v by simp
qed

theorem audit_parentId_witness:
  "hd (issues (fst (scanFrameForComponents outer_remote root_XX [])))
     \<in> set (issues (fst (scanFrameForComponents outer_remote root_XX [])))
   \<and> issue_parentId (hd (issues (fst (scanFrameForComponents outer_remote root_XX [])))) = Some ''2:1''
   \<and> (\<exists>r\<in>set (fst (locate root_XX [])). nname (node r) = ''X'' \<and> level r = 0)"
proof -
  let ?iss = "hd (issues (fst (scanFrameForComponents outer_remote root_XX [])))"
  have m: "?iss \<in> set (issues (fst (scanFrameForComponents outer_remote root_XX [])))"
    by (simp add: scan_root_XX)
  have p: "issue_parentId ?iss = Some ''2:1''" by (simp add: scan_root_XX)
  from audit_parentId[OF m] p
  have "\<exists>r\<in>set (fst (locate root_XX [])).
          nname (node r) = last (snd (scanFrameForComponents outer_remote root_XX []) ! issue_parentPath ?iss)
          \<and> level r = issue_level ?iss - 1"
    by simp
  then have "\<exists>r\<in>set (fst (locate root_XX [])). nname (node r) = ''X'' \<and> level r = 0"
    by (simp add: scan_root_XX)
  with m p show ?thesis by blast
qed

text \<open>
  C3. The scenario of the specification: R holds the unlinked Btn (its main component has
  remote = false), which holds the unlinked Icon. The scan reports two issues, and both
  have no \<open>parentId\<close>: for Icon the search compares the last name of its chain, which is
  Icon itself, with the names of the records of level 0, and finds none.
\<close>

theorem scan_btn_icon_no_parentId:
  "issue_parents (fst (scanFrameForComponents all_local root_R [])) =
     [(''Btn'', ''1:1'', None), (''Icon'', ''1:2'', None)]"
  by (simp add: issue_parents_def scan_root_R)

text \<open>
  C4. An instance is linked exactly when the lookup is fulfilled with a main component
  whose \<open>remote\<close> is the boolean true; a rejected lookup, an absent component and every
  other value of \<open>remote\<close> make it unlinked. No outcome stops the scan: the issues are
  those of all the located records whose lookup did not end that way, in order, and
  \<open>totalComponents\<close> counts every INSTANCE node of the tree.
\<close>

theorem lookup_failure_flags:
  "isComponentLinked env n = (env n = Returns (Some (MainComponent (JBool True))))
   \<and> map issue_id (issues (fst (scanFrameForComponents env frame h)))
       = map (\<lambda>r. nid (node r))
           (filter (\<lambda>r. env (node r) \<noteq> Returns (Some (MainComponent (JBool True))))
              (fst (locate frame h)))
   \<and> totalComponents (fst (scanFrameForComponents env frame h))
       = length (filter isInstance (preorder frame))"
proof -
  have l: "\<And>m. isComponentLinked env m = (env m = Returns (Some (MainComponent (JBool True))))"
  proof -
    fix m show "isComponentLinked env m = (env m = Returns (Some (MainComponent (JBool True))))"
    proof (cases "env m")
      case Throws
      then show ?thesis by (simp add: isComponentLinked_def)
    next
      case (Returns r)
      show ?thesis
      proof (cases r)
        case None
        then show ?thesis using Returns by (simp add: isComponentLinked_def)
      next
        case (Some mc)
        then show ?thesis using Returns by (cases mc) (simp add: isComponentLinked_def)
      qed
    qed
  qed
  have u: "unlinked env = (\<lambda>r. env (node r) \<noteq> Returns (Some (MainComponent (JBool True))))"
    by (rule ext) (simp add: unlinked_def l)
  have c: "length (fst (locate frame h)) = length (filter isInstance (preorder frame))"
    using arg_cong[OF locate_nodes[of frame h], of length] by simp
  show ?thesis
    by (simp add: l scan_unfold u comp_def issueOf_def c)
qed

text \<open>
  C6. The records are emitted in depth-first pre-order: their nodes are the INSTANCE
  nodes of the pre-order of T, children in their original order, and record number j
  belongs to the j-th INSTANCE position; every INSTANCE strict ancestor of that position
  is the position of an earlier record. The issues of the scan are the records
  classified unlinked, in the order of the records.
\<close>

theorem traversal_order_kept:
  "map node (fst (locate T h)) = filter isInstance (preorder T)
   \<and> map node (fst (locate T h)) = map snd (instancePositions T)
   \<and> (\<forall>j k. j < length (instancePositions T)
          \<and> k < length (fst (instancePositions T ! j))
          \<and> isInstance (fst (instancePositions T ! j) ! k)
        \<longrightarrow> (\<exists>i<j. instancePositions T ! i
                     = (take k (fst (instancePositions T ! j)), fst (instancePositions T ! j) ! k)))
   \<and> issues (fst (scanFrameForComponents env T h))
       = map (issueOf (snd (locate T h)) (fst (locate T h)))
           (filter (unlinked env) (fst (locate T h)))"
proof -
  let ?ip = "instancePositions T"
  have anc: "\<forall>j k. j < length ?ip \<and> k < length (fst (?ip ! j)) \<and> isInstance (fst (?ip ! j) ! k)
        \<longrightarrow> (\<exists>i<j. ?ip ! i = (take k (fst (?ip ! j)), fst (?ip ! j) ! k))"
  proof (intro allI impI)
    fix j k
    assume a: "j < length ?ip \<and> k < length (fst (?ip ! j)) \<and> isInstance (fst (?ip ! j) ! k)"
    then have j: "j < length ?ip" by simp
    have split: "?ip = take j ?ip @ (fst (?ip ! j), snd (?ip ! j)) # drop (Suc j) ?ip"
      using id_take_nth_drop[OF j] by simp
    from instancePositions_ancestors_first[OF split] a
    have "(take k (fst (?ip ! j)), fst (?ip ! j) ! k) \<in> set (take j ?ip)" by simp
    then obtain i where "i < length (take j ?ip)"
      and "take j ?ip ! i = (take k (fst (?ip ! j)), fst (?ip ! j) ! k)"
      by (auto simp: in_set_conv_nth)
    then have "i < j \<and> ?ip ! i = (take k (fst (?ip ! j)), fst (?ip ! j) ! k)" by simp
    then show "\<exists>i<j. ?ip ! i = (take k (fst (?ip ! j)), fst (?ip ! j) ! k)" by blast
  qed
  show ?thesis
    using anc by (simp add: locate_nodes scan_unfold map_snd_instancePositions)
qed

theorem traversal_order_kept_witness:
  "(1::nat) < length (instancePositions root_R)
   \<and> (1::nat) < length (fst (instancePositions root_R ! 1))
   \<and> isInstance (fst (instancePositions root_R ! 1) ! 1)
   \<and> (\<exists>i<1. instancePositions root_R ! i = ([root_R], btn_node))
   \<and> map node (fst (locate root_R [])) = [btn_node, icon_node]
   \<and> map issue_id (issues (fst (scanFrameForComponents all_local root_R []))) = [''1:1'', ''1:2'']"
proof -
  have h: "(1::nat) < length (instancePositions root_R)
           \<and> (1::nat) < length (fst (instancePositions root_R ! 1))
           \<and> isInstance (fst (instancePositions root_R ! 1) ! 1)"
    by (simp add: instancePositions_root_R isInstance_def btn_node_def)
  from traversal_order_kept[of root_R "[]" all_local]
  have t: "\<forall>j k. j < length (instancePositions root_R)
          \<and> k < length (fst (instancePositions root_R ! j))
          \<and> isInstance (fst (instancePositions root_R ! j) ! k)
        \<longrightarrow> (\<exists>i<j. instancePositions root_R ! i
                     = (take k (fst (instancePositions root_R ! j)), fst (instancePositions root_R ! j) ! k))"
    and n: "map node (fst (locate root_R [])) = map snd (instancePositions root_R)"
    and i: "issues (fst (scanFrameForComponents all_local root_R []))
       = map (issueOf (snd (locate root_R [])) (fst (locate root_R [])))
           (filter (unlinked all_local) (fst (locate root_R [])))"
    by blast+
  from t h have "\<exists>i<1. instancePositions root_R ! i
     = (take 1 (fst (instancePositions root_R ! 1)), fst (instancePositions root_R ! 1) ! 1)"
    by blast
  then have e: "\<exists>i<1. instancePositions root_R ! i = ([root_R], btn_node)"
    by (simp add: instancePositions_root_R)
  have n': "map node (fst (locate root_R [])) = [btn_node, icon_node]"
    using n by (simp add: instancePositions_root_R)
  have i': "map issue_id (issues (fst (scanFrameForComponents all_local root_R []))) = [''1:1'', ''1:2'']"
    unfolding i
    by (simp add: locate_root_R unlinked_def isComponentLinked_def all_local_def issueOf_def
          btn_node_def icon_node_def)
  from h e n' i' show ?thesis by blast
qed

text \<open>
  C8. In every scan result \<open>totalComponents\<close> is \<open>totalIssues\<close> plus the number of linked
  records, it is the number of located records, \<open>totalIssues\<close> is the number of unlinked
  records and the length of \<open>issues\<close>, and \<open>frameName\<close> is the display name of the root.
\<close>

theorem scan_totals:
  "totalComponents (fst (scanFrameForComponents env frame h))
     = totalIssues (fst (scanFrameForComponents env frame h))
       + length (filter (\<lambda>r. isComponentLinked env (node r)) (fst (locate frame h)))
   \<and> totalComponents (fst (scanFrameForComponents env frame h)) = length (fst (locate frame h))
   \<and> totalIssues (fst (scanFrameForComponents env frame h))
       = length (filter (\<lambda>r. \<not> isComponentLinked env (node r)) (fst (locate frame h)))
   \<and> totalIssues (fst (scanFrameForComponents env frame h))
       = length (issues (fst (scanFrameForComponents env frame h)))
   \<and> frameName (fst (scanFrameForComponents env frame h)) = nname frame"
proof -
  have "length (fst (locate frame h))
          = length (filter (\<lambda>r. \<not> isComponentLinked env (node r)) (fst (locate frame h)))
            + length (filter (\<lambda>r. isComponentLinked env (node r)) (fst (locate frame h)))"
    using sum_length_filter_compl[of "\<lambda>r. \<not> isComponentLinked env (node r)" "fst (locate frame h)"]
    by simp
  then show ?thesis
    by (simp add: scan_unfold unlinked_def[abs_def])
qed

text \<open>
  C9. With the tree and the host unchanged, a second scan, run in the store the first
  one left, yields a result with the same content in the same order; and the first
  result still reads the same after the second scan.
\<close>

theorem scan_twice_same_content:
  "(case scanFrameForComponents env frame h0 of (r1, h1) \<Rightarrow>
      case scanFrameForComponents env frame h1 of (r2, h2) \<Rightarrow>
        result_content h1 r1 = result_content h2 r2
        \<and> result_content h2 r1 = result_content h1 r1)"
proof -
  obtain r1 h1 where s1: "scanFrameForComponents env frame h0 = (r1, h1)"
    by (cases "scanFrameForComponents env frame h0")
  obtain r2 h2 where s2: "scanFrameForComponents env frame h1 = (r2, h2)"
    by (cases "scanFrameForComponents env frame h1")
  have c1: "result_content h1 r1 = expected_content env frame"
    using scan_content[of env frame h0] s1 by simp
  have c2: "result_content h2 r2 = expected_content env frame"
    using scan_content[of env frame h1] s2 by simp
  have h1: "h1 = snd (locate frame h0)" using s1 by (simp add: scan_unfold)
  have i1: "issues r1 = map (issueOf (snd (locate frame h0)) (fst (locate frame h0)))
                          (filter (unlinked env) (fst (locate frame h0)))"
    using s1 by (auto simp: scan_unfold)
  have b: "\<forall>iss\<in>set (issues r1). issue_parentPath iss < length h1"
    unfolding i1 h1 by (auto simp: issueOf_def locate_addresses_bounded)
  have "h2 = snd (locate frame h1)" using s2 by (simp add: scan_unfold)
  then obtain ext where "h2 = h1 @ [] # ext" using locate_extends_store[of frame h1] by auto
  then have "result_content h2 r1 = result_content h1 r1"
    using result_content_extend[OF b] by simp
  then show ?thesis using c1 c2 by (simp add: s1 s2)
qed

section \<open>Rejection of an invalid root\<close>

text \<open>
  C7. When nothing is selected, or the type of the selected node is none of FRAME,
  COMPONENT and COMPONENT_SET, the handler posts an error and leaves the store as it
  was: no traversal has run and no result is posted. Otherwise it posts the content of
  the scan result of the selected node, and the traversal has allocated in the store.
\<close>

theorem invalid_root_rejected:
  "(selection = [] \<or> ntype (selection ! 0) \<notin> {''FRAME'', ''COMPONENT'', ''COMPONENT_SET''}
      \<longrightarrow> (\<exists>e. onmessage_scan_frame env selection h = (ScanError e, h)))
   \<and> (selection \<noteq> [] \<and> ntype (selection ! 0) \<in> {''FRAME'', ''COMPONENT'', ''COMPONENT_SET''}
      \<longrightarrow> onmessage_scan_frame env selection h
            = (ScanResultMsg (result_content (snd (scanFrameForComponents env (selection ! 0) h))
                                (fst (scanFrameForComponents env (selection ! 0) h))),
               snd (scanFrameForComponents env (selection ! 0) h))
          \<and> snd (scanFrameForComponents env (selection ! 0) h) \<noteq> h)"
proof -
  have "snd (scanFrameForComponents env (selection ! 0) h) \<noteq> h"
    using locate_extends_store[of "selection ! 0" h] by (auto simp: scan_unfold)
  then show ?thesis
    by (auto simp: onmessage_scan_frame_def Let_def split: prod.splits)
qed

theorem invalid_root_rejected_witness:
  "(\<exists>e. onmessage_scan_frame all_local [] [] = (ScanError e, []))
   \<and> (\<exists>e. onmessage_scan_frame all_local [shape_node] [] = (ScanError e, []))
   \<and> onmessage_scan_frame all_local [root_R] []
       = (ScanResultMsg (2, 2,
            [(''Btn'', ''1:1'', ''NOT_LINKED'', 0, [''Btn''], None, None),
             (''Icon'', ''1:2'', ''NOT_LINKED'', 1, [''Btn'', ''Icon''], Some ''Btn'', None)],
            ''R''),
          [[], [], [''Btn''], [''Btn'', ''Icon'']])"
proof -
  have a: "\<exists>e. onmessage_scan_frame all_local [] [] = (ScanError e, [])"
    using invalid_root_rejected[of "[]" all_local "[]"] by simp
  have b: "\<exists>e. onmessage_scan_frame all_local [shape_node] [] = (ScanError e, [])"
    using invalid_root_rejected[of "[shape_node]" all_local "[]"]
    by (simp add: shape_node_def)
  have c: "onmessage_scan_frame all_local [root_R] []
       = (ScanResultMsg (2, 2,
            [(''Btn'', ''1:1'', ''NOT_LINKED'', 0, [''Btn''], None, None),
             (''Icon'', ''1:2'', ''NOT_LINKED'', 1, [''Btn'', ''Icon''], Some ''Btn'', None)],
            ''R''),
          [[], [], [''Btn''], [''Btn'', ''Icon'']])"
  proof -
    have t: "ntype root_R = ''FRAME''" by (simp add: root_R_def)
    from invalid_root_rejected[of "[root_R]" all_local "[]"] t
    have "onmessage_scan_frame all_local [root_R] []
            = (ScanResultMsg (result_content (snd (scanFrameForComponents all_local root_R []))
                                (fst (scanFrameForComponents all_local root_R []))),
               snd (scanFrameForComponents all_local root_R []))"
      by simp
    then show ?thesis
      by (simp add: scan_root_R result_content_def issue_content_def)
  qed
  from a b c show ?thesis by blast
qed

end
